theory Spec2Isabelle
  imports Main "HOL-Library.AList" "HOL-Library.Sublist"
begin

section \<open>Data model of \<open>src/main.py\<close>\<close>

text \<open>
  The enum \<open>Side\<close> has exactly the two members \<open>BUY\<close> and \<open>SELL\<close>, and pydantic checks
  the attribute \<open>side\<close> against it when an \<open>Order\<close> is constructed. \<open>OtherSide\<close> stands for
  any value of the attribute that is neither member: an \<open>Order\<close> holds one only where that
  check is bypassed (\<open>Order.construct\<close>, or a later assignment to the attribute), and it
  compares unequal to both members. The pydantic models \<open>Order\<close> and \<open>Trade\<close> carry
  integer fields with no further constraint (Python integers are unbounded, hence
  \<open>int\<close>). The field \<open>Order.id\<close> is called \<open>ident\<close> here, since \<open>id\<close> is the identity
  function of HOL.
\<close>

datatype Side = BUY | SELL | OtherSide

record Trade =
  buyer :: int
  seller :: int
  price :: int
  quantity :: int

record Order =
  ident :: int
  side :: Side
  quantity :: int
  price :: int

text \<open>
  An \<open>OrderLevel\<close> object has the single attribute \<open>orders\<close>, a deque read from the left
  (oldest first) and appended to on the right: a list of orders. Orders are held by value:
  every call of \<open>process\<close> is taken to receive an \<open>Order\<close> object of its own, as in the
  driver at the end of the source file.
\<close>

type_synonym OrderLevel = "Order list"

text \<open>
  \<open>OrderBook.bids\<close> and \<open>OrderBook.asks\<close> are \<open>defaultdict(OrderLevel)\<close>: dictionaries from
  price to level, kept here as association lists in insertion order.
\<close>

record OrderBook =
  bids :: "(int \<times> OrderLevel) list"
  asks :: "(int \<times> OrderLevel) list"

text \<open>
  \<open>calc_max_bid\<close> and \<open>calc_min_ask\<close> return a price or one of the floats
  \<open>float('-inf')\<close>, \<open>float('inf')\<close>. Python compares an integer with an infinite float
  exactly.
\<close>

datatype pynum = NegInf | IntVal int | PosInf

fun num_less :: "pynum \<Rightarrow> pynum \<Rightarrow> bool" where
  "num_less NegInf NegInf = False"
| "num_less NegInf _ = True"
| "num_less (IntVal a) (IntVal b) = (a < b)"
| "num_less (IntVal a) PosInf = True"
| "num_less (IntVal a) NegInf = False"
| "num_less PosInf _ = False"

fun num_le :: "pynum \<Rightarrow> pynum \<Rightarrow> bool" where
  "num_le NegInf _ = True"
| "num_le (IntVal a) (IntVal b) = (a \<le> b)"
| "num_le (IntVal a) PosInf = True"
| "num_le (IntVal a) NegInf = False"
| "num_le PosInf PosInf = True"
| "num_le PosInf _ = False"

text \<open>
  The only exception the matching code can raise is a \<open>TypeError\<close>: from comparing an
  integer with \<open>None\<close>, or from \<open>raise "Impossible"\<close>, whose operand is a string and not an
  exception.
\<close>

datatype error = TypeError

section \<open>\<open>OrderLevel\<close>\<close>

definition OrderLevel_init :: OrderLevel where
  "OrderLevel_init = []"

definition OrderLevel_add :: "OrderLevel \<Rightarrow> Order \<Rightarrow> OrderLevel" where
  "OrderLevel_add orders ord = orders @ [ord]"

text \<open>
  \<open>OrderLevel.execute_sell\<close>: the \<open>while self.orders\<close> loop, as recursion over the queue.
  The result is the list of trades, the returned \<open>total_quantity\<close> and the queue as the
  loop leaves it. In the first branch the source line \<open>total_quantity == 0\<close> is a
  comparison whose value is discarded, so \<open>total_quantity\<close> is returned as it is.
\<close>

fun OrderLevel_execute_sell ::
  "OrderLevel \<Rightarrow> int \<Rightarrow> int \<Rightarrow> int \<Rightarrow> Trade list \<times> int \<times> OrderLevel" where
  "OrderLevel_execute_sell [] sid at_price total_quantity = ([], total_quantity, [])"
| "OrderLevel_execute_sell (ord # rest) sid at_price total_quantity =
     (if total_quantity < Order.quantity ord then
        ([\<lparr>buyer = ident ord, seller = sid, price = at_price, quantity = total_quantity\<rparr>],
         total_quantity,
         ord\<lparr>Order.quantity := Order.quantity ord - total_quantity\<rparr> # rest)
      else
        (case OrderLevel_execute_sell rest sid at_price (total_quantity - Order.quantity ord) of
           (trades, left, orders') \<Rightarrow>
             (\<lparr>buyer = ident ord, seller = sid, price = at_price,
               quantity = Order.quantity ord\<rparr> # trades, left, orders')))"

definition depth :: "OrderLevel \<Rightarrow> int" where
  "depth orders = sum_list (map Order.quantity orders)"

section \<open>\<open>OrderBook\<close>\<close>

definition OrderBook_init :: OrderBook where
  "OrderBook_init = \<lparr>bids = [], asks = []\<rparr>"

text \<open>
  Subscripting a \<open>defaultdict(OrderLevel)\<close>: the level stored under the price, a fresh
  empty level when the price is not a key. \<open>add_at\<close> is the statement
  \<open>d[price].add(order)\<close>: a new key goes to the end of the dictionary.
\<close>

definition level_at :: "(int \<times> OrderLevel) list \<Rightarrow> int \<Rightarrow> OrderLevel" where
  "level_at d p = (case map_of d p of None \<Rightarrow> OrderLevel_init | Some lvl \<Rightarrow> lvl)"

definition add_at :: "(int \<times> OrderLevel) list \<Rightarrow> int \<Rightarrow> Order \<Rightarrow> (int \<times> OrderLevel) list" where
  "add_at d p ord = AList.update p (OrderLevel_add (level_at d p) ord) d"

definition calc_max_bid :: "OrderBook \<Rightarrow> pynum" where
  "calc_max_bid book =
     (if bids book \<noteq> [] then IntVal (Max (set (map fst (bids book)))) else NegInf)"

definition calc_min_ask :: "OrderBook \<Rightarrow> pynum" where
  "calc_min_ask book =
     (if asks book \<noteq> [] then IntVal (Min (set (map fst (asks book)))) else PosInf)"

definition spread :: "OrderBook \<Rightarrow> Side \<Rightarrow> pynum option \<times> pynum option" where
  "spread book sd =
     (if sd = BUY then (Some (calc_min_ask book), None) else (None, Some (calc_max_bid book)))"

text \<open>
  \<open>OrderBook.execute_sell\<close>. \<open>levels\<close> is the list computed in its first line; the
  \<open>for price in levels\<close> loop, with its \<open>break\<close>, is \<open>execute_sell_loop\<close> over the bid
  dictionary.
\<close>

definition levels :: "(int \<times> OrderLevel) list \<Rightarrow> int \<Rightarrow> int list" where
  "levels d p = rev (sort (filter (\<lambda>q. q \<ge> p) (map fst d)))"

fun execute_sell_loop ::
  "int list \<Rightarrow> int \<Rightarrow> int \<Rightarrow> (int \<times> OrderLevel) list
     \<Rightarrow> Trade list \<times> int \<times> (int \<times> OrderLevel) list" where
  "execute_sell_loop [] sid total_quantity d = ([], total_quantity, d)"
| "execute_sell_loop (p # ps) sid total_quantity d =
     (case OrderLevel_execute_sell (level_at d p) sid p total_quantity of
        (trades, left, orders') \<Rightarrow>
          (let d1 = AList.update p orders' d;
               d2 = (if orders' = [] then AList.delete p d1 else d1)
           in if left = 0 then (trades, left, d2)
              else (case execute_sell_loop ps sid left d2 of
                      (later, left', d3) \<Rightarrow> (trades @ later, left', d3))))"

definition OrderBook_execute_sell :: "OrderBook \<Rightarrow> Order \<Rightarrow> Trade list \<times> int \<times> OrderBook" where
  "OrderBook_execute_sell book ord =
     (case execute_sell_loop (levels (bids book) (Order.price ord)) (ident ord)
             (Order.quantity ord) (bids book) of
        (executed_trades, total_quantity, d) \<Rightarrow>
          (executed_trades, total_quantity, book\<lparr>bids := d\<rparr>))"

text \<open>
  The prices for which the body of the \<open>for price in levels\<close> loop of
  \<open>OrderBook.execute_sell\<close> runs, in the order in which it runs: the same recursion as
  \<open>execute_sell_loop\<close>, recording the price of each iteration.
\<close>

fun visited_loop :: "int list \<Rightarrow> int \<Rightarrow> int \<Rightarrow> (int \<times> OrderLevel) list \<Rightarrow> int list" where
  "visited_loop [] sid total_quantity d = []"
| "visited_loop (p # ps) sid total_quantity d =
     (case OrderLevel_execute_sell (level_at d p) sid p total_quantity of
        (trades, left, orders') \<Rightarrow>
          (let d1 = AList.update p orders' d;
               d2 = (if orders' = [] then AList.delete p d1 else d1)
           in if left = 0 then [p]
              else p # visited_loop ps sid left d2))"

definition visited_levels :: "OrderBook \<Rightarrow> Order \<Rightarrow> int list" where
  "visited_levels book ord =
     visited_loop (levels (bids book) (Order.price ord)) (ident ord)
       (Order.quantity ord) (bids book)"

text \<open>
  \<open>OrderBook.process\<close>. The result is \<open>Inl\<close> of the exception raised, or \<open>Inr\<close> of the
  returned value: \<open>Some trades\<close> for a returned list, \<open>None\<close> where the function body ends
  without a \<open>return\<close> statement (the first \<open>case\<close>, which only prints). The second
  component is the book after the call. The guards are evaluated in the order of the
  \<open>match\<close> statement. A side that is neither \<open>BUY\<close> nor \<open>SELL\<close> matches none of the four
  patterns, so no guard is evaluated and \<open>case _\<close> raises.
\<close>

definition process :: "OrderBook \<Rightarrow> Order \<Rightarrow> (error + Trade list option) \<times> OrderBook" where
  "process book ord =
     (case spread book (side ord) of
        (min_ask, max_bid) \<Rightarrow>
          (case side ord of
             BUY \<Rightarrow>
               (case min_ask of
                  None \<Rightarrow> (Inl TypeError, book)
                | Some a \<Rightarrow>
                    if num_le a (IntVal (Order.price ord)) then (Inr None, book)
                    else if num_less (IntVal (Order.price ord)) a then
                      (Inr (Some []), book\<lparr>bids := add_at (bids book) (Order.price ord) ord\<rparr>)
                    else (Inl TypeError, book))
           | SELL \<Rightarrow>
               (case max_bid of
                  None \<Rightarrow> (Inl TypeError, book)
                | Some b \<Rightarrow>
                    if num_le (IntVal (Order.price ord)) b then
                      (case OrderBook_execute_sell book ord of
                         (trades, quantity_left, book') \<Rightarrow>
                           if quantity_left = 0 then
                             (Inr (Some trades),
                              book'\<lparr>asks := add_at (asks book') (Order.price ord)
                                               (ord\<lparr>Order.quantity := quantity_left\<rparr>)\<rparr>)
                           else (Inr (Some trades), book'))
                    else if num_less b (IntVal (Order.price ord)) then
                      (Inr (Some []), book\<lparr>asks := add_at (asks book) (Order.price ord) ord\<rparr>)
                    else (Inl TypeError, book))
           | OtherSide \<Rightarrow> (Inl TypeError, book)))"

text \<open>
  The driver's loop \<open>for o in orders: book.process(o)\<close>: the book when the loop ends, or
  when a call raises and the exception leaves the loop.
\<close>

fun process_all :: "OrderBook \<Rightarrow> Order list \<Rightarrow> OrderBook" where
  "process_all book [] = book"
| "process_all book (ord # os) =
     (case process book ord of
        (Inl e, book') \<Rightarrow> book'
      | (Inr r, book') \<Rightarrow> process_all book' os)"

text \<open>
  The no-cross condition of the specification, over the two best-price queries of the
  book: the maximum bid price is strictly below the minimum ask price, and the condition
  holds when either side is empty.
\<close>

definition no_cross :: "OrderBook \<Rightarrow> bool" where
  "no_cross book = num_less (calc_max_bid book) (calc_min_ask book)"

definition mk_order :: "int \<Rightarrow> Side \<Rightarrow> int \<Rightarrow> int \<Rightarrow> Order" where
  "mk_order i sd p q = \<lparr>ident = i, side = sd, quantity = q, price = p\<rparr>"

definition mk_trade :: "int \<Rightarrow> int \<Rightarrow> int \<Rightarrow> int \<Rightarrow> Trade" where
  "mk_trade s b p q = \<lparr>buyer = b, seller = s, price = p, quantity = q\<rparr>"

text \<open>
  The first six orders of the driver (the resting bids of the reference sequence) and
  its fire sale.
\<close>

definition driver_bids :: "Order list" where
  "driver_bids =
     [mk_order 1 BUY 100 1, mk_order 2 BUY 100 2, mk_order 3 BUY 99 1,
      mk_order 4 BUY 99 2, mk_order 5 BUY 99 3, mk_order 6 BUY 98 3]"

definition executed_sale :: Order where
  "executed_sale = mk_order 9 SELL 99 5"

text \<open>
  Two measures used to state quantity conservation: the total quantity of a list of
  trades, and the quantity resting in the book (on either side) under an order identity.
\<close>

definition traded_quantity :: "Trade list \<Rightarrow> int" where
  "traded_quantity trades = sum_list (map Trade.quantity trades)"

definition resting_quantity :: "OrderBook \<Rightarrow> int \<Rightarrow> int" where
  "resting_quantity book i =
     sum_list (map Order.quantity
       (filter (\<lambda>ord. ident ord = i) (concat (map snd (bids book @ asks book)))))"

text \<open>
  A book with two bids at 100 and one each at 99 and 98, reached from the empty book,
  used to run \<open>OrderBook.execute_sell\<close> over several levels.
\<close>

definition priority_bids :: "Order list" where
  "priority_bids =
     [mk_order 1 BUY 100 5, mk_order 2 BUY 100 5, mk_order 3 BUY 99 3, mk_order 4 BUY 98 1]"

section \<open>Evaluation\<close>

lemmas book_defs =
  OrderBook_init_def OrderLevel_init_def OrderLevel_add_def mk_order_def
  mk_trade_def process_def spread_def calc_min_ask_def calc_max_bid_def add_at_def
  level_at_def OrderBook_execute_sell_def levels_def

section \<open>The no-cross condition\<close>

text \<open>
  C1. The claim: after every call of \<open>process\<close> in a sequence of valid calls from the empty
  book, the maximum bid price is strictly below the minimum ask price. The code breaks
  it: after two bids at 100 (quantities 1 and 2), a sell of quantity 1 at 100 is filled
  completely and is then rested with quantity 0 as an ask at 100, while the bid of
  identity 2 still rests at 100.
\<close>

theorem no_cross_broken_by_zero_rest:
  "process_all OrderBook_init
       [mk_order 1 BUY 100 1, mk_order 2 BUY 100 2, mk_order 3 SELL 100 1] =
     \<lparr>bids = [(100, [mk_order 2 BUY 100 2])], asks = [(100, [mk_order 3 SELL 100 0])]\<rparr>
   \<and> \<not> no_cross (process_all OrderBook_init
       [mk_order 1 BUY 100 1, mk_order 2 BUY 100 2, mk_order 3 SELL 100 1])"
  by (simp add: book_defs no_cross_def)

section \<open>Quantity conservation\<close>

text \<open>
  C2. The claim: the original quantity of an incoming order is the sum of the quantities of
  its trades plus the quantity of it left resting. The code breaks it: a sell of quantity 5
  at 100 against a single bid of quantity 2 at 100 trades 2, and the remaining 3 are not
  rested.
\<close>

theorem conservation_broken_by_dropped_remainder:
  "process (process_all OrderBook_init [mk_order 1 BUY 100 2]) (mk_order 2 SELL 100 5) =
     (Inr (Some [mk_trade 2 1 100 2]), \<lparr>bids = [], asks = []\<rparr>)
   \<and> traded_quantity [mk_trade 2 1 100 2] + resting_quantity \<lparr>bids = [], asks = []\<rparr> 2 = 2
   \<and> Order.quantity (mk_order 2 SELL 100 5) = 5"
  by (simp add: book_defs traded_quantity_def resting_quantity_def)

section \<open>Partial fill of the head order\<close>

text \<open>
  The first branch of \<open>OrderLevel.execute_sell\<close> in general: one trade for the incoming
  quantity, the head order reduced and still first, and the incoming quantity returned as
  it came.
\<close>

lemma OrderLevel_execute_sell_partial:
  "total_quantity < Order.quantity ord \<Longrightarrow>
   OrderLevel_execute_sell (ord # rest) sid at_price total_quantity =
     ([\<lparr>buyer = ident ord, seller = sid, price = at_price, quantity = total_quantity\<rparr>],
      total_quantity,
      ord\<lparr>Order.quantity := Order.quantity ord - total_quantity\<rparr> # rest)"
  by simp

text \<open>
  C3. The claim: when the incoming quantity is strictly less than the head order's
  quantity, one trade for the incoming quantity is emitted, the head order is reduced and
  stays first, and the returned remaining quantity is zero. The code returns the incoming
  quantity unchanged: an incoming 3 against a head order of 5 returns 3.
\<close>

theorem partial_fill_returns_incoming_quantity:
  "OrderLevel_execute_sell [mk_order 1 BUY 100 5, mk_order 2 BUY 100 4] 9 100 3 =
     ([mk_trade 9 1 100 3], 3, [mk_order 1 BUY 100 2, mk_order 2 BUY 100 4])"
  by (simp add: book_defs)

section \<open>Resting the remainder of a crossing sell\<close>

text \<open>
  C4. The claim: a crossing sell is rested as an ask at its own price if and only if its
  remaining quantity is strictly positive. The code does the opposite: against a single
  bid of quantity 1 at 100, a sell of quantity 1 is rested with quantity 0, and a sell of
  quantity 3 (remainder 2) is not rested.
\<close>

theorem crossing_sell_rest_inverted:
  "process (process_all OrderBook_init [mk_order 1 BUY 100 1]) (mk_order 2 SELL 100 1) =
     (Inr (Some [mk_trade 2 1 100 1]),
      \<lparr>bids = [], asks = [(100, [mk_order 2 SELL 100 0])]\<rparr>)
   \<and> process (process_all OrderBook_init [mk_order 1 BUY 100 1]) (mk_order 2 SELL 100 3) =
     (Inr (Some [mk_trade 2 1 100 1]), \<lparr>bids = [], asks = []\<rparr>)"
  by (simp add: book_defs)

section \<open>Trades of quantity zero\<close>

text \<open>
  C5. The claim: with strictly positive order quantities and prices, every returned trade
  has a strictly positive quantity, as the level emits no trade once the incoming
  quantity is zero. The code goes on after the incoming quantity has reached zero: with
  bids of quantity 1 and 2 at 100, a sell of quantity 1 yields a second trade, of quantity
  0, against the second bid.
\<close>

theorem zero_quantity_trade_emitted:
  "OrderLevel_execute_sell [mk_order 1 BUY 100 1, mk_order 2 BUY 100 2] 3 100 1 =
     ([mk_trade 3 1 100 1, mk_trade 3 2 100 0], 0, [mk_order 2 BUY 100 2])
   \<and> fst (process (process_all OrderBook_init [mk_order 1 BUY 100 1, mk_order 2 BUY 100 2])
        (mk_order 3 SELL 100 1)) =
     Inr (Some [mk_trade 3 1 100 1, mk_trade 3 2 100 0])"
  by (simp add: book_defs)

section \<open>A crossing buy\<close>

text \<open>
  C6. The claim: \<open>process\<close> always returns a sequence of trades, and a buy at or above the
  minimum ask is executed against the asks. In the code that branch only prints: with an
  ask of quantity 3 at 101, a buy of quantity 1 at 101 returns \<open>None\<close> and trades nothing.
\<close>

theorem crossing_buy_returns_none:
  "process (process_all OrderBook_init [mk_order 7 SELL 101 3]) (mk_order 10 BUY 101 1) =
     (Inr None, \<lparr>bids = [], asks = [(101, [mk_order 7 SELL 101 3])]\<rparr>)"
  by (simp add: book_defs)

text \<open>
  C10. For every incoming buy whose price is at or above the minimum ask price,
  \<open>process\<close> leaves the whole book as it was: nothing is consumed, changed or rested.
  (It returns \<open>None\<close>.)
\<close>

theorem crossing_buy_leaves_book_unchanged:
  assumes "side ord = BUY" and "asks book \<noteq> []"
    and "Min (set (map fst (asks book))) \<le> Order.price ord"
  shows "process book ord = (Inr None, book)"
  using assms by (simp add: process_def spread_def calc_min_ask_def)

theorem crossing_buy_leaves_book_unchanged_witness:
  "side (mk_order 10 BUY 102 4) = BUY
   \<and> asks \<lparr>bids = [(100, [mk_order 1 BUY 100 1])],
            asks = [(101, [mk_order 7 SELL 101 3]), (103, [mk_order 8 SELL 103 5])]\<rparr> \<noteq> []
   \<and> Min (set (map fst (asks \<lparr>bids = [(100, [mk_order 1 BUY 100 1])],
            asks = [(101, [mk_order 7 SELL 101 3]), (103, [mk_order 8 SELL 103 5])]\<rparr>)))
       \<le> Order.price (mk_order 10 BUY 102 4)
   \<and> process \<lparr>bids = [(100, [mk_order 1 BUY 100 1])],
            asks = [(101, [mk_order 7 SELL 101 3]), (103, [mk_order 8 SELL 103 5])]\<rparr>
        (mk_order 10 BUY 102 4) =
      (Inr None, \<lparr>bids = [(100, [mk_order 1 BUY 100 1])],
            asks = [(101, [mk_order 7 SELL 101 3]), (103, [mk_order 8 SELL 103 5])]\<rparr>)"
  using crossing_buy_leaves_book_unchanged
    [of "mk_order 10 BUY 102 4"
        "\<lparr>bids = [(100, [mk_order 1 BUY 100 1])],
          asks = [(101, [mk_order 7 SELL 101 3]), (103, [mk_order 8 SELL 103 5])]\<rparr>"]
  by (simp add: mk_order_def)

section \<open>Price-time order in \<open>execute_sell\<close>\<close>

text \<open>
  The trades of one level carry the level's price, and their buyers are, in order, the
  first orders of the queue.
\<close>

lemma level_trades:
  "OrderLevel_execute_sell lvl sid p q = (ts, left, lvl') \<Longrightarrow>
   (\<forall>t \<in> set ts. Trade.price t = p) \<and> prefix (map buyer ts) (map ident lvl)"
proof (induction lvl arbitrary: q ts left lvl')
  case Nil
  then show ?case by simp
next
  case (Cons ord rest)
  show ?case
  proof (cases "q < Order.quantity ord")
    case True
    with Cons.prems show ?thesis by auto
  next
    case False
    obtain ts0 l0 r0 where r: "OrderLevel_execute_sell rest sid p (q - Order.quantity ord) = (ts0, l0, r0)"
      by (cases "OrderLevel_execute_sell rest sid p (q - Order.quantity ord)") auto
    from Cons.IH[OF r] have ih: "(\<forall>t \<in> set ts0. Trade.price t = p) \<and> prefix (map buyer ts0) (map ident rest)" .
    from False r Cons.prems have "ts = \<lparr>buyer = ident ord, seller = sid, price = p, quantity = Order.quantity ord\<rparr> # ts0"
      by simp
    with ih show ?thesis by simp
  qed
qed

lemma visited_prefix: "prefix (visited_loop ps sid q d) ps"
  by (induction ps arbitrary: q d) (auto split: prod.splits simp: Let_def)

lemma loop_all_visited:
  "execute_sell_loop ps sid q d = (ts, left, d') \<Longrightarrow> left \<noteq> 0 \<Longrightarrow> visited_loop ps sid q d = ps"
  by (induction ps arbitrary: q d ts left d') (auto split: prod.splits if_splits simp: Let_def)

lemma loop_trade_prices:
  "execute_sell_loop ps sid q d = (ts, left, d') \<Longrightarrow>
   Trade.price ` set ts \<subseteq> set (visited_loop ps sid q d)"
proof (induction ps arbitrary: q d ts left d')
  case Nil
  then show ?case by simp
next
  case (Cons h ps)
  obtain ts0 l0 lvl0 where lv: "OrderLevel_execute_sell (level_at d h) sid h q = (ts0, l0, lvl0)"
    by (cases "OrderLevel_execute_sell (level_at d h) sid h q") auto
  from level_trades[OF lv] have p0: "\<forall>t \<in> set ts0. Trade.price t = h" by simp
  show ?case
  proof (cases "l0 = 0")
    case True
    with Cons.prems lv p0 show ?thesis by (auto simp: Let_def)
  next
    case False
    define d2 where "d2 = (if lvl0 = [] then AList.delete h (AList.update h lvl0 d) else AList.update h lvl0 d)"
    obtain ts1 l1 d3 where rc: "execute_sell_loop ps sid l0 d2 = (ts1, l1, d3)"
      by (cases "execute_sell_loop ps sid l0 d2") auto
    from Cons.prems lv False rc have ts: "ts = ts0 @ ts1"
      by (auto simp: Let_def d2_def split: if_splits)
    from lv False have v: "visited_loop (h # ps) sid q d = h # visited_loop ps sid l0 d2"
      by (simp add: Let_def d2_def)
    from Cons.IH[OF rc] p0 ts v show ?thesis by auto
  qed
qed


lemma step_map_of:
  "p \<noteq> h \<Longrightarrow>
   map_of (if lvl = [] then AList.delete h (AList.update h lvl d) else AList.update h lvl d) p
     = map_of d p"
  by (simp add: update_conv' delete_conv')

lemma loop_frame:
  "execute_sell_loop ps sid q d = (ts, left, d') \<Longrightarrow>
   p \<notin> set (visited_loop ps sid q d) \<Longrightarrow> map_of d' p = map_of d p"
proof (induction ps arbitrary: q d ts left d')
  case Nil
  then show ?case by simp
next
  case (Cons h ps)
  obtain ts0 l0 lvl0 where lv: "OrderLevel_execute_sell (level_at d h) sid h q = (ts0, l0, lvl0)"
    by (cases "OrderLevel_execute_sell (level_at d h) sid h q") auto
  define d2 where "d2 = (if lvl0 = [] then AList.delete h (AList.update h lvl0 d) else AList.update h lvl0 d)"
  from Cons.prems(2) lv have ph: "p \<noteq> h" by (auto simp: Let_def split: if_splits)
  then have m2: "map_of d2 p = map_of d p" unfolding d2_def by (rule step_map_of)
  show ?case
  proof (cases "l0 = 0")
    case True
    with Cons.prems(1) lv have "d' = d2" by (auto simp: Let_def d2_def)
    with m2 show ?thesis by simp
  next
    case False
    obtain ts1 l1 d3 where rc: "execute_sell_loop ps sid l0 d2 = (ts1, l1, d3)"
      by (cases "execute_sell_loop ps sid l0 d2") auto
    from Cons.prems(1) lv False rc have dd: "d' = d3"
      by (auto simp: Let_def d2_def split: if_splits)
    from lv False Cons.prems(2) have nv: "p \<notin> set (visited_loop ps sid l0 d2)"
      by (simp add: Let_def d2_def)
    from Cons.IH[OF rc nv] m2 dd show ?thesis by simp
  qed
qed

lemma loop_prices_descending:
  "sorted_wrt (>) ps \<Longrightarrow> execute_sell_loop ps sid q d = (ts, left, d') \<Longrightarrow>
   sorted_wrt (\<ge>) (map Trade.price ts)"
proof (induction ps arbitrary: q d ts left d')
  case Nil
  then show ?case by simp
next
  case (Cons h ps)
  obtain ts0 l0 lvl0 where lv: "OrderLevel_execute_sell (level_at d h) sid h q = (ts0, l0, lvl0)"
    by (cases "OrderLevel_execute_sell (level_at d h) sid h q") auto
  from level_trades[OF lv] have p0: "\<forall>t \<in> set ts0. Trade.price t = h" by simp
  then have s0: "sorted_wrt (\<ge>) (map Trade.price ts0)"
    by (simp add: sorted_wrt_map sorted_wrt_iff_nth_less)
  define d2 where "d2 = (if lvl0 = [] then AList.delete h (AList.update h lvl0 d) else AList.update h lvl0 d)"
  show ?case
  proof (cases "l0 = 0")
    case True
    with Cons.prems(2) lv have "ts = ts0" by (auto simp: Let_def)
    with s0 show ?thesis by simp
  next
    case False
    obtain ts1 l1 d3 where rc: "execute_sell_loop ps sid l0 d2 = (ts1, l1, d3)"
      by (cases "execute_sell_loop ps sid l0 d2") auto
    from Cons.prems(2) lv False rc have ts: "ts = ts0 @ ts1"
      by (auto simp: Let_def d2_def split: if_splits)
    from Cons.prems(1) have sps: "sorted_wrt (>) ps" and hps: "\<forall>x \<in> set ps. x < h" by auto
    from Cons.IH[OF sps rc] have s1: "sorted_wrt (\<ge>) (map Trade.price ts1)" .
    have "Trade.price ` set ts1 \<subseteq> set ps"
      using loop_trade_prices[OF rc] visited_prefix[of ps sid l0 d2] set_mono_prefix by blast
    with hps have p1: "\<forall>t \<in> set ts1. Trade.price t < h" by auto
    from s0 s1 p0 p1 ts show ?thesis
      by (auto simp: sorted_wrt_append)
  qed
qed

lemma level_at_step:
  "p \<noteq> h \<Longrightarrow>
   level_at (if lvl = [] then AList.delete h (AList.update h lvl d) else AList.update h lvl d) p
     = level_at d p"
  by (simp add: level_at_def update_conv' delete_conv')

lemma loop_fifo:
  "distinct ps \<Longrightarrow> execute_sell_loop ps sid q d = (ts, left, d') \<Longrightarrow>
   prefix (map buyer (filter (\<lambda>t. Trade.price t = p) ts)) (map ident (level_at d p))"
proof (induction ps arbitrary: q d ts left d')
  case Nil
  then show ?case by simp
next
  case (Cons h ps)
  obtain ts0 l0 lvl0 where lv: "OrderLevel_execute_sell (level_at d h) sid h q = (ts0, l0, lvl0)"
    by (cases "OrderLevel_execute_sell (level_at d h) sid h q") auto
  from level_trades[OF lv] have p0: "\<forall>t \<in> set ts0. Trade.price t = h"
    and f0: "prefix (map buyer ts0) (map ident (level_at d h))" by simp_all
  define d2 where "d2 = (if lvl0 = [] then AList.delete h (AList.update h lvl0 d) else AList.update h lvl0 d)"
  have here: "p = h \<Longrightarrow> filter (\<lambda>t. Trade.price t = p) ts0 = ts0"
    using p0 by (simp add: filter_id_conv)
  have there: "p \<noteq> h \<Longrightarrow> filter (\<lambda>t. Trade.price t = p) ts0 = []"
    using p0 by (auto simp: filter_empty_conv)
  show ?case
  proof (cases "l0 = 0")
    case True
    with Cons.prems(2) lv have "ts = ts0" by (auto simp: Let_def)
    with here there f0 show ?thesis by (cases "p = h") simp_all
  next
    case False
    obtain ts1 l1 d3 where rc: "execute_sell_loop ps sid l0 d2 = (ts1, l1, d3)"
      by (cases "execute_sell_loop ps sid l0 d2") auto
    from Cons.prems(2) lv False rc have ts: "ts = ts0 @ ts1"
      by (auto simp: Let_def d2_def split: if_splits)
    from Cons.prems(1) have dps: "distinct ps" and hps: "h \<notin> set ps" by auto
    from Cons.IH[OF dps rc]
    have ih: "prefix (map buyer (filter (\<lambda>t. Trade.price t = p) ts1)) (map ident (level_at d2 p))" .
    have "Trade.price ` set ts1 \<subseteq> set ps"
      using loop_trade_prices[OF rc] visited_prefix[of ps sid l0 d2] set_mono_prefix by blast
    with hps have p1: "\<forall>t \<in> set ts1. Trade.price t \<noteq> h" by auto
    show ?thesis
    proof (cases "p = h")
      case True
      with p1 have "filter (\<lambda>t. Trade.price t = p) ts1 = []" by (auto simp: filter_empty_conv)
      with True here f0 ts show ?thesis by simp
    next
      case False
      then have "level_at d2 p = level_at d p" unfolding d2_def by (rule level_at_step)
      with ih there False ts show ?thesis by simp
    qed
  qed
qed

lemma levels_set: "set (levels d p) = {q \<in> set (map fst d). p \<le> q}"
  by (auto simp: levels_def)

lemma levels_descending: "distinct (map fst d) \<Longrightarrow> sorted_wrt (>) (levels d p)"
proof -
  assume "distinct (map fst d)"
  then have "distinct (sort (filter (\<lambda>q. q \<ge> p) (map fst d)))" by simp
  then have "sorted_wrt (<) (sort (filter (\<lambda>q. q \<ge> p) (map fst d)))"
    by (simp add: strict_sorted_iff)
  then show ?thesis
    by (simp add: levels_def sorted_wrt_rev)
qed

lemma loop_keys_distinct:
  "distinct (map fst d) \<Longrightarrow> execute_sell_loop ps sid q d = (ts, left, d') \<Longrightarrow>
   distinct (map fst d')"
proof (induction ps arbitrary: q d ts left d')
  case Nil
  then show ?case by simp
next
  case (Cons h ps)
  obtain ts0 l0 lvl0 where lv: "OrderLevel_execute_sell (level_at d h) sid h q = (ts0, l0, lvl0)"
    by (cases "OrderLevel_execute_sell (level_at d h) sid h q") auto
  define d2 where "d2 = (if lvl0 = [] then AList.delete h (AList.update h lvl0 d) else AList.update h lvl0 d)"
  from Cons.prems(1) have dd2: "distinct (map fst d2)"
    by (simp add: d2_def distinct_update distinct_delete)
  show ?case
  proof (cases "l0 = 0")
    case True
    with Cons.prems(2) lv have "d' = d2" by (auto simp: Let_def d2_def)
    with dd2 show ?thesis by simp
  next
    case False
    obtain ts1 l1 d3 where rc: "execute_sell_loop ps sid l0 d2 = (ts1, l1, d3)"
      by (cases "execute_sell_loop ps sid l0 d2") auto
    from Cons.prems(2) lv False rc have "d' = d3"
      by (auto simp: Let_def d2_def split: if_splits)
    with Cons.IH[OF dd2 rc] show ?thesis by simp
  qed
qed

lemma process_keys_distinct:
  assumes "distinct (map fst (bids book))" and "distinct (map fst (asks book))"
  shows "distinct (map fst (bids (snd (process book ord))))
       \<and> distinct (map fst (asks (snd (process book ord))))"
proof (cases "side ord")
  case BUY
  with assms show ?thesis
    by (cases "calc_min_ask book")
       (simp_all add: process_def spread_def add_at_def distinct_update)
next
  case SELL
  obtain ts l d' where lp: "execute_sell_loop (levels (bids book) (Order.price ord)) (ident ord)
             (Order.quantity ord) (bids book) = (ts, l, d')"
    by (cases "execute_sell_loop (levels (bids book) (Order.price ord)) (ident ord)
             (Order.quantity ord) (bids book)") auto
  from loop_keys_distinct[OF assms(1) lp] have "distinct (map fst d')" .
  with SELL assms lp show ?thesis
    by (cases "calc_max_bid book")
       (simp_all add: process_def spread_def add_at_def distinct_update OrderBook_execute_sell_def)
next
  case OtherSide
  with assms show ?thesis by (simp add: process_def spread_def)
qed

text \<open>
  Every book reached from the empty book has distinct prices as keys on both sides.
\<close>

lemma process_all_keys_distinct:
  "distinct (map fst (bids book)) \<and> distinct (map fst (asks book)) \<Longrightarrow>
   distinct (map fst (bids (process_all book os)))
   \<and> distinct (map fst (asks (process_all book os)))"
proof (induction os arbitrary: book)
  case Nil
  then show ?case by simp
next
  case (Cons ord os)
  from Cons.prems process_keys_distinct[of book ord]
  have step: "distinct (map fst (bids (snd (process book ord))))
      \<and> distinct (map fst (asks (snd (process book ord))))" by simp
  obtain res book' where pr: "process book ord = (res, book')"
    by (cases "process book ord") auto
  show ?case
  proof (cases res)
    case (Inl e)
    with pr step show ?thesis by simp
  next
    case (Inr r)
    with pr step Cons.IH[of book'] show ?thesis by simp
  qed
qed

lemma reachable_keys_distinct:
  "distinct (map fst (bids (process_all OrderBook_init os)))
   \<and> distinct (map fst (asks (process_all OrderBook_init os)))"
  by (rule process_all_keys_distinct) (simp add: OrderBook_init_def)

text \<open>
  What holds of the iteration for every book whose bid prices are distinct keys:
  \<open>OrderBook.execute_sell\<close> iterates over exactly the bid prices at or above the incoming
  price, in strictly descending order, and visits a prefix of them, all of them when the
  returned remaining quantity is not zero. A level it does not visit is left as it was.
  Trades are made only at visited levels and are returned in descending price order; the
  buyers of the trades at one price are, in order, a prefix of that level's queue.
\<close>

lemma execute_sell_iteration_order:
  assumes "distinct (map fst (bids book))"
    and "OrderBook_execute_sell book ord = (trades, left, book')"
  shows "set (levels (bids book) (Order.price ord))
           = {p \<in> set (map fst (bids book)). Order.price ord \<le> p}
       \<and> sorted_wrt (>) (levels (bids book) (Order.price ord))
       \<and> prefix (visited_levels book ord) (levels (bids book) (Order.price ord))
       \<and> (left \<noteq> 0 \<longrightarrow> visited_levels book ord = levels (bids book) (Order.price ord))
       \<and> (\<forall>p. p \<notin> set (visited_levels book ord) \<longrightarrow>
                map_of (bids book') p = map_of (bids book) p)
       \<and> Trade.price ` set trades \<subseteq> set (visited_levels book ord)
       \<and> sorted_wrt (\<ge>) (map Trade.price trades)
       \<and> (\<forall>p. prefix (map buyer (filter (\<lambda>t. Trade.price t = p) trades))
                       (map ident (level_at (bids book) p)))"
proof -
  let ?ps = "levels (bids book) (Order.price ord)"
  obtain d' where lp: "execute_sell_loop ?ps (ident ord) (Order.quantity ord) (bids book)
                         = (trades, left, d')"
    and b': "book' = book\<lparr>bids := d'\<rparr>"
    using assms(2) by (auto simp: OrderBook_execute_sell_def split: prod.splits)
  have desc: "sorted_wrt (>) ?ps" using assms(1) by (rule levels_descending)
  then have dist: "distinct ?ps" 
    by (metis distinct_rev strict_sorted_iff sorted_wrt_rev distinct_sort levels_def assms(1) distinct_filter)
  have 1: "set ?ps = {p \<in> set (map fst (bids book)). Order.price ord \<le> p}"
    by (rule levels_set)
  have 3: "prefix (visited_levels book ord) ?ps"
    unfolding visited_levels_def by (rule visited_prefix)
  have 4: "left \<noteq> 0 \<longrightarrow> visited_levels book ord = ?ps"
    unfolding visited_levels_def using loop_all_visited[OF lp] by simp
  have 5: "\<forall>p. p \<notin> set (visited_levels book ord) \<longrightarrow> map_of (bids book') p = map_of (bids book) p"
    unfolding visited_levels_def using loop_frame[OF lp] b' by simp
  have 6: "Trade.price ` set trades \<subseteq> set (visited_levels book ord)"
    unfolding visited_levels_def using lp by (rule loop_trade_prices)
  have 7: "sorted_wrt (\<ge>) (map Trade.price trades)"
    using desc lp by (rule loop_prices_descending)
  have 8: "\<forall>p. prefix (map buyer (filter (\<lambda>t. Trade.price t = p) trades))
                       (map ident (level_at (bids book) p))"
    using loop_fifo[OF dist lp] by simp
  from 1 desc 3 4 5 6 7 8 show ?thesis by blast
qed

text \<open>
  C7. The claim: \<open>OrderBook.execute_sell\<close> goes through the bid levels at or above the
  incoming price in descending order and through each level oldest first, so that of two
  eligible resting orders the one at the better price is filled first. The code breaks
  it: with bids of quantity 5 under identities 1 and 2 at 100, of quantity 3 under
  identity 3 at 99 and of quantity 1 under identity 4 at 98, a sell of quantity 3 at 98
  trades 3 against identity 1 at 100, which returns the incoming quantity 3 unchanged,
  and then 3 more against identity 3 at 99. The bid of identity 2 at 100, at a better
  price than identity 3, gets nothing and rests untouched, and identity 1 keeps 2 units
  at 100.
\<close>

theorem worse_priced_bid_filled_before_better:
  "OrderBook_execute_sell (process_all OrderBook_init priority_bids) (mk_order 9 SELL 98 3) =
       ([mk_trade 9 1 100 3, mk_trade 9 3 99 3], 0,
        \<lparr>bids = [(100, [mk_order 1 BUY 100 2, mk_order 2 BUY 100 5]),
                 (98, [mk_order 4 BUY 98 1])], asks = []\<rparr>)
   \<and> fst (process (process_all OrderBook_init priority_bids) (mk_order 9 SELL 98 3)) =
       Inr (Some [mk_trade 9 1 100 3, mk_trade 9 3 99 3])
   \<and> levels (bids (process_all OrderBook_init priority_bids)) 98 = [100, 99, 98]
   \<and> level_at (bids (process_all OrderBook_init priority_bids)) 100 =
       [mk_order 1 BUY 100 5, mk_order 2 BUY 100 5]"
  by (simp add: book_defs priority_bids_def)

section \<open>The reference scenario\<close>

text \<open>
  C8, as claimed: from the book holding the six resting bids of the driver, the sell of
  identity 9, price 99 and quantity 5 returns exactly three trades. It does not.
\<close>

theorem fire_sale_not_three_trades:
  "fst (process (process_all OrderBook_init driver_bids) executed_sale) \<noteq>
     Inr (Some [mk_trade 9 1 100 1, mk_trade 9 2 100 2, mk_trade 9 3 99 1])"
  by (simp add: book_defs driver_bids_def executed_sale_def)

text \<open>
  C8, amended: from the book holding the six resting bids of the driver (whatever the ask
  side holds), the sell of identity 9, price 99 and quantity 5 returns exactly four
  trades: against identity 1 for quantity 1 at 100, against identity 2 for quantity 2 at
  100, against identity 3 for quantity 1 at 99 (all of it), and partially against
  identity 4 for quantity 1 at 99.
\<close>

theorem fire_sale_four_trades:
  "fst (process ((process_all OrderBook_init driver_bids)\<lparr>asks := a\<rparr>) executed_sale) =
     Inr (Some [mk_trade 9 1 100 1, mk_trade 9 2 100 2, mk_trade 9 3 99 1,
                mk_trade 9 4 99 1])"
  by (simp add: book_defs driver_bids_def executed_sale_def)

section \<open>Malformed orders\<close>


text \<open>
  Appending with \<open>add_at\<close> puts the order at the tail of the level under its price.
\<close>

lemma level_at_add_at: "level_at (add_at d p ord) p = level_at d p @ [ord]"
  by (simp add: add_at_def level_at_def OrderLevel_add_def update_conv')






end
